theory Spec2Isabelle
  imports Main "HOL-Library.Sublist"
begin

section \<open>Rectangle\<close>

text \<open>
  \<^verbatim>\<open>function Rectangle(width, height)\<close> stores its two arguments in the fields
  \<^verbatim>\<open>width\<close> and \<^verbatim>\<open>height\<close> and attaches the closure
  \<^verbatim>\<open>getArea = () => this.height * this.width\<close>, which reads the two fields when
  it is called. The number type is left abstract: \<open>*\<close> stands for the multiplication of
  the numbers the caller passes.
\<close>

record 'a Rectangle =
  width :: 'a
  height :: 'a

definition new_Rectangle :: "'a \<Rightarrow> 'a \<Rightarrow> 'a Rectangle" where
  "new_Rectangle w h = \<lparr>width = w, height = h\<rparr>"

definition getArea :: "('a::times) Rectangle \<Rightarrow> 'a" where
  "getArea this = height this * width this"


section \<open>The selector fragment: class CssClass\<close>

text \<open>
  An object of \<^verbatim>\<open>CssClass\<close> has the fields \<^verbatim>\<open>value\<close> (the accumulated
  text) and \<^verbatim>\<open>elem\<close> (the second constructor argument, \<^verbatim>\<open>false\<close> by
  default). The constructor also stores the two message texts \<^verbatim>\<open>err1\<close> and
  \<^verbatim>\<open>err2\<close>; they are the same two literals in every object and nothing assigns
  them again, so they are constants here.
\<close>

record CssClass =
  value' :: string
  elem :: bool

definition err1 :: string where
  "err1 = ''Element, id and pseudo-element should not occur more then one time inside the selector''"

definition err2 :: string where
  "err2 = ''Selector parts should be arranged in the following order: element, id, class, attribute, pseudo-class, pseudo-element''"

text \<open>\<^verbatim>\<open>throw new Error(msg)\<close> is the result \<open>Inl (Error msg)\<close>.\<close>

datatype error = Error string

text \<open>
  The two error kinds of the specification are the two messages of the source:
  the "more than one time" message is the duplicate error, the "arranged in the
  following order" message is the ordering error.
\<close>

abbreviation DuplicateSegmentError :: error where
  "DuplicateSegmentError \<equiv> Error err1"

abbreviation SegmentOrderError :: error where
  "SegmentOrderError \<equiv> Error err2"

text \<open>\<^verbatim>\<open>new CssClass(value, el = false)\<close>\<close>

definition new_CssClass :: "string \<Rightarrow> bool \<Rightarrow> CssClass" where
  "new_CssClass v el = \<lparr>value' = v, elem = el\<rparr>"

text \<open>
  \<^verbatim>\<open>String.prototype.includes\<close>: does the second string occur in the first as a
  contiguous run of characters? The strings searched for in this program are made of
  the ASCII characters '#', '.', '[' and ':' only, for which a search over bytes and a
  search over UTF-16 code units agree.
\<close>

fun includes' :: "'a list \<Rightarrow> 'a list \<Rightarrow> bool" where
  "includes' [] s = (case s of [] \<Rightarrow> True | _ # _ \<Rightarrow> False)"
| "includes' (c # cs) s = (prefix s (c # cs) \<or> includes' cs s)"

text \<open>
  The six chaining methods. An empty string is the only falsy string, so
  \<^verbatim>\<open>if (this.value)\<close> is the test \<open>value' this \<noteq> []\<close>.
\<close>

definition element :: "CssClass \<Rightarrow> string \<Rightarrow> error + CssClass" where
  "element this val =
     (if elem this then Inl (Error err1)
      else if value' this \<noteq> [] then Inl (Error err2)
      else Inr (new_CssClass (value' this @ val) (elem this)))"

definition id' :: "CssClass \<Rightarrow> string \<Rightarrow> error + CssClass" where
  "id' this val =
     (if includes' (value' this) ''#'' then Inl (Error err1)
      else if includes' (value' this) ''.'' \<or> includes' (value' this) ''[''
              \<or> includes' (value' this) '':'' \<or> includes' (value' this) ''::''
        then Inl (Error err2)
      else Inr (new_CssClass (value' this @ ''#'' @ val) (elem this)))"

definition class' :: "CssClass \<Rightarrow> string \<Rightarrow> error + CssClass" where
  "class' this val =
     (if includes' (value' this) ''['' \<or> includes' (value' this) '':''
           \<or> includes' (value' this) ''::''
        then Inl (Error err2)
      else Inr (new_CssClass (value' this @ ''.'' @ val) (elem this)))"

definition attr :: "CssClass \<Rightarrow> string \<Rightarrow> error + CssClass" where
  "attr this val =
     (if includes' (value' this) '':'' \<or> includes' (value' this) ''::''
        then Inl (Error err2)
      else Inr (new_CssClass (value' this @ ''['' @ val @ '']'') (elem this)))"

definition pseudoClass :: "CssClass \<Rightarrow> string \<Rightarrow> error + CssClass" where
  "pseudoClass this val =
     (if includes' (value' this) ''::'' then Inl (Error err2)
      else Inr (new_CssClass (value' this @ '':'' @ val) (elem this)))"

definition pseudoElement :: "CssClass \<Rightarrow> string \<Rightarrow> error + CssClass" where
  "pseudoElement this val =
     (if includes' (value' this) ''::'' then Inl (Error err1)
      else Inr (new_CssClass (value' this @ ''::'' @ val) (elem this)))"

definition stringify :: "CssClass \<Rightarrow> string" where
  "stringify this = value' this"


section \<open>The facade: cssSelectorBuilder\<close>

definition builder_element :: "string \<Rightarrow> CssClass" where
  "builder_element v = new_CssClass v True"

definition builder_id :: "string \<Rightarrow> CssClass" where
  "builder_id v = new_CssClass (''#'' @ v) False"

definition builder_class :: "string \<Rightarrow> CssClass" where
  "builder_class v = new_CssClass (''.'' @ v) False"

definition builder_attr :: "string \<Rightarrow> CssClass" where
  "builder_attr v = new_CssClass (''['' @ v @ '']'') False"

definition builder_pseudoClass :: "string \<Rightarrow> CssClass" where
  "builder_pseudoClass v = new_CssClass ('':'' @ v) False"

definition builder_pseudoElement :: "string \<Rightarrow> CssClass" where
  "builder_pseudoElement v = new_CssClass (''::'' @ v) False"

definition combine :: "CssClass \<Rightarrow> string \<Rightarrow> CssClass \<Rightarrow> CssClass" where
  "combine selector1 comb selector2 =
     new_CssClass (stringify selector1 @ '' '' @ comb @ '' '' @ stringify selector2) False"


section \<open>Call chains\<close>

text \<open>
  The facade and the class have the same six method names. A chain
  \<^verbatim>\<open>builder.m0(v0).m1(v1)...mk(vk)\<close> is a starter call followed by a list of
  method calls; the first \<^verbatim>\<open>throw\<close> ends it.
\<close>

datatype method_name = M_element | M_id | M_class | M_attr | M_pseudoClass | M_pseudoElement

fun start :: "method_name \<Rightarrow> string \<Rightarrow> CssClass" where
  "start M_element v = builder_element v"
| "start M_id v = builder_id v"
| "start M_class v = builder_class v"
| "start M_attr v = builder_attr v"
| "start M_pseudoClass v = builder_pseudoClass v"
| "start M_pseudoElement v = builder_pseudoElement v"

fun append' :: "method_name \<Rightarrow> CssClass \<Rightarrow> string \<Rightarrow> error + CssClass" where
  "append' M_element this v = element this v"
| "append' M_id this v = id' this v"
| "append' M_class this v = class' this v"
| "append' M_attr this v = attr this v"
| "append' M_pseudoClass this v = pseudoClass this v"
| "append' M_pseudoElement this v = pseudoElement this v"

primrec chain :: "CssClass \<Rightarrow> (method_name \<times> string) list \<Rightarrow> error + CssClass" where
  "chain this [] = Inr this"
| "chain this (c # cs) =
     (case append' (fst c) this (snd c) of
        Inl e \<Rightarrow> Inl e
      | Inr this' \<Rightarrow> chain this' cs)"

text \<open>
  The token column of the specification's table of operations: the text each
  operation is said to put after the old text (and each starter to begin with).
\<close>

fun token :: "method_name \<Rightarrow> string \<Rightarrow> string" where
  "token M_element v = v"
| "token M_id v = ''#'' @ v"
| "token M_class v = ''.'' @ v"
| "token M_attr v = ''['' @ v @ '']''"
| "token M_pseudoClass v = '':'' @ v"
| "token M_pseudoElement v = ''::'' @ v"


section \<open>Objects in a store\<close>

text \<open>
  Fragments are objects, and a method call receives a reference. The store is the
  list of the objects created so far and a reference is an index into it. Here every
  method of the class and \<^verbatim>\<open>combine\<close> is written once more as the source has
  it, statement by statement, on the store: a read of \<^verbatim>\<open>this.value\<close> is a read of
  the object at \<^verbatim>\<open>this\<close>, an assignment to a field is an update of the store at
  the assigned object, \<^verbatim>\<open>throw\<close> leaves with the error and the store as it is at
  that point, and \<^verbatim>\<open>return\<close> leaves with a reference.
\<close>

type_synonym store = "CssClass list"

text \<open>\<^verbatim>\<open>o.value = v\<close> and \<^verbatim>\<open>o.elem = el\<close>\<close>

definition assign_value :: "nat \<Rightarrow> string \<Rightarrow> store \<Rightarrow> store" where
  "assign_value obj v h = h[obj := (h ! obj)\<lparr>value' := v\<rparr>]"

definition assign_elem :: "nat \<Rightarrow> bool \<Rightarrow> store \<Rightarrow> store" where
  "assign_elem obj el h = h[obj := (h ! obj)\<lparr>elem := el\<rparr>]"

text \<open>
  \<^verbatim>\<open>new CssClass(value, el)\<close>: \<^verbatim>\<open>new\<close> puts a fresh object at the end of the
  store, and the constructor body assigns its two fields, \<^verbatim>\<open>this.value = value\<close>
  and \<^verbatim>\<open>this.elem = el\<close>. The fresh object has no fields yet; the two field values
  it is given here are both overwritten before anything can read them.
\<close>

definition st_new_CssClass :: "store \<Rightarrow> string \<Rightarrow> bool \<Rightarrow> nat \<times> store" where
  "st_new_CssClass h v el =
     (let this = length h;
          h0 = h @ [\<lparr>value' = [], elem = False\<rparr>];
          h1 = assign_value this v h0;
          h2 = assign_elem this el h1
      in (this, h2))"

text \<open>\<^verbatim>\<open>return new CssClass(v, el)\<close>\<close>

definition return_new :: "store \<Rightarrow> string \<Rightarrow> bool \<Rightarrow> (error + nat) \<times> store" where
  "return_new h v el = (case st_new_CssClass h v el of (obj, h') \<Rightarrow> (Inr obj, h'))"

definition st_element :: "store \<Rightarrow> nat \<Rightarrow> string \<Rightarrow> (error + nat) \<times> store" where
  "st_element h this val =
     (if elem (h ! this) then (Inl (Error err1), h)
      else if value' (h ! this) \<noteq> [] then (Inl (Error err2), h)
      else return_new h (value' (h ! this) @ val) (elem (h ! this)))"

definition st_id :: "store \<Rightarrow> nat \<Rightarrow> string \<Rightarrow> (error + nat) \<times> store" where
  "st_id h this val =
     (if includes' (value' (h ! this)) ''#'' then (Inl (Error err1), h)
      else if includes' (value' (h ! this)) ''.'' \<or> includes' (value' (h ! this)) ''[''
              \<or> includes' (value' (h ! this)) '':'' \<or> includes' (value' (h ! this)) ''::''
        then (Inl (Error err2), h)
      else return_new h (value' (h ! this) @ ''#'' @ val) (elem (h ! this)))"

definition st_class :: "store \<Rightarrow> nat \<Rightarrow> string \<Rightarrow> (error + nat) \<times> store" where
  "st_class h this val =
     (if includes' (value' (h ! this)) ''['' \<or> includes' (value' (h ! this)) '':''
           \<or> includes' (value' (h ! this)) ''::''
        then (Inl (Error err2), h)
      else return_new h (value' (h ! this) @ ''.'' @ val) (elem (h ! this)))"

definition st_attr :: "store \<Rightarrow> nat \<Rightarrow> string \<Rightarrow> (error + nat) \<times> store" where
  "st_attr h this val =
     (if includes' (value' (h ! this)) '':'' \<or> includes' (value' (h ! this)) ''::''
        then (Inl (Error err2), h)
      else return_new h (value' (h ! this) @ ''['' @ val @ '']'') (elem (h ! this)))"

definition st_pseudoClass :: "store \<Rightarrow> nat \<Rightarrow> string \<Rightarrow> (error + nat) \<times> store" where
  "st_pseudoClass h this val =
     (if includes' (value' (h ! this)) ''::'' then (Inl (Error err2), h)
      else return_new h (value' (h ! this) @ '':'' @ val) (elem (h ! this)))"

definition st_pseudoElement :: "store \<Rightarrow> nat \<Rightarrow> string \<Rightarrow> (error + nat) \<times> store" where
  "st_pseudoElement h this val =
     (if includes' (value' (h ! this)) ''::'' then (Inl (Error err1), h)
      else return_new h (value' (h ! this) @ ''::'' @ val) (elem (h ! this)))"

definition st_stringify :: "store \<Rightarrow> nat \<Rightarrow> string" where
  "st_stringify h this = value' (h ! this)"

text \<open>A call \<^verbatim>\<open>this.m(val)\<close> of one of the six methods, by the method's name.\<close>

fun invoke :: "method_name \<Rightarrow> store \<Rightarrow> nat \<Rightarrow> string \<Rightarrow> (error + nat) \<times> store" where
  "invoke M_element h this val = st_element h this val"
| "invoke M_id h this val = st_id h this val"
| "invoke M_class h this val = st_class h this val"
| "invoke M_attr h this val = st_attr h this val"
| "invoke M_pseudoClass h this val = st_pseudoClass h this val"
| "invoke M_pseudoElement h this val = st_pseudoElement h this val"

text \<open>\<^verbatim>\<open>cssSelectorBuilder.combine(selector1, combine, selector2)\<close>\<close>

definition invoke_combine :: "store \<Rightarrow> nat \<Rightarrow> string \<Rightarrow> nat \<Rightarrow> nat \<times> store" where
  "invoke_combine h selector1 comb selector2 =
     st_new_CssClass h
       (st_stringify h selector1 @ '' '' @ comb @ '' '' @ st_stringify h selector2) False"


section \<open>getJSON and fromJSON\<close>

text \<open>
  \<^verbatim>\<open>getJSON(obj)\<close> is \<^verbatim>\<open>JSON.stringify(obj)\<close> and \<^verbatim>\<open>fromJSON(proto, json)\<close> is
  \<^verbatim>\<open>Object.setPrototypeOf(JSON.parse(json), proto)\<close>. The three functions they
  call belong to the language runtime and are not code of this repository; they
  are modelled below.
\<close>

text \<open>
  Modelled from the spec: the values \<^verbatim>\<open>serialize\<close> takes, "arbitrary nesting of
  primitives, ordered sequences, and key-value mappings with string keys". The
  primitives are \<^verbatim>\<open>undefined\<close>, \<^verbatim>\<open>null\<close>, the booleans, numbers and strings. Of the
  numbers the model has the integers and the four special values \<^verbatim>\<open>-0\<close>,
  \<^verbatim>\<open>NaN\<close>, \<^verbatim>\<open>Infinity\<close> and \<^verbatim>\<open>-Infinity\<close>; numbers with a fractional part are
  not in the model. A string is a list of code units below 256. A mapping is the list
  of its keys and values in the order it enumerates them; the runtime enumerates keys
  that are array indices first, which the model leaves out.
\<close>

datatype number = Finite int | NegZero | NaN | PosInfinity | NegInfinity

datatype jsvalue =
    JUndefined
  | JNull
  | JBool bool
  | JNumber number
  | JString string
  | JArray "jsvalue list"
  | JObject "(string \<times> jsvalue) list"

text \<open>
  The errors: a text that is not valid structured data (the specification's
  \<^verbatim>\<open>ParseError\<close>, the runtime's \<^verbatim>\<open>SyntaxError\<close>), the runtime's \<^verbatim>\<open>TypeError\<close>, and
  \<open>OutsideModel\<close> for a text that holds a number with a fraction or an exponent, or
  an escaped code unit of 256 or more: there the model says nothing.
\<close>

datatype json_error = SyntaxError | TypeError | OutsideModel

text \<open>
  Modelled from the spec: \<^verbatim>\<open>JSON.stringify\<close>, the "standard textual encoding rules"
  of \<^verbatim>\<open>serialize\<close>, missing from the sources. A string is put between double
  quotes, with the double quote, the backslash and the code units below 32 escaped
  (the short escapes for backspace, tab, line feed, form feed and carriage return,
  the four-digit lower-case hexadecimal escape for the others). An integer is written
  in decimal digits, \<^verbatim>\<open>-0\<close> as \<^verbatim>\<open>0\<close>, and a number that is not finite as
  \<^verbatim>\<open>null\<close>. \<^verbatim>\<open>undefined\<close> has no text: as an element of a sequence it is written
  \<^verbatim>\<open>null\<close>, as the value of a key the key is left out, and at the top the result
  is \<^verbatim>\<open>undefined\<close> (\<open>None\<close>). Keys are written in the mapping's own order, with
  no white space anywhere.
\<close>

definition dquote :: char where
  "dquote = CHR 0x22"

definition backslash :: char where
  "backslash = CHR 0x5C"











text \<open>
  Modelled from the spec: \<^verbatim>\<open>JSON.parse\<close>, which "parses text as structured data"
  and fails "when text is not valid structured data", missing from the sources. The
  grammar is the standard one: white space (tab, line feed, carriage return, space)
  between tokens; the words \<^verbatim>\<open>null\<close>, \<^verbatim>\<open>true\<close>, \<^verbatim>\<open>false\<close>; numbers with an
  optional minus sign and no leading zero; strings between double quotes with the
  escapes for the double quote, the backslash, the slash, b, f, n, r, t and u with
  four hexadecimal digits, and no code unit below 32; sequences between brackets and
  mappings between braces, separated by commas, with no trailing comma. A key that
  comes twice keeps its first place and its last value. The text \<^verbatim>\<open>-0\<close> is
  negative zero. The recursion into nested values takes fuel; \<open>None\<close> is "out of
  fuel", which \<open>JSON_parse\<close> never returns (lemma \<open>JSON_parse_total\<close>).
\<close>

definition is_ws :: "char \<Rightarrow> bool" where
  "is_ws c \<longleftrightarrow> c = CHR 0x09 \<or> c = CHR 0x0A \<or> c = CHR 0x0D \<or> c = CHR 0x20"

definition skip_ws :: "string \<Rightarrow> string" where
  "skip_ws s = dropWhile is_ws s"

definition is_digit :: "char \<Rightarrow> bool" where
  "is_digit c \<longleftrightarrow> (48::nat) \<le> of_char c \<and> of_char c \<le> (57::nat)"

definition digits_value :: "string \<Rightarrow> nat" where
  "digits_value ds = foldl (\<lambda>a c. 10 * a + (of_char c - 48)) 0 ds"

definition hex_value :: "char \<Rightarrow> nat option" where
  "hex_value c =
     (let n = of_char c :: nat in
      if 48 \<le> n \<and> n \<le> 57 then Some (n - 48)
      else if 97 \<le> n \<and> n \<le> 102 then Some (n - 87)
      else if 65 \<le> n \<and> n \<le> 70 then Some (n - 55)
      else None)"

definition hex4 :: "char \<Rightarrow> char \<Rightarrow> char \<Rightarrow> char \<Rightarrow> nat option" where
  "hex4 a b c d =
     (case (hex_value a, hex_value b, hex_value c, hex_value d) of
        (Some w, Some x, Some y, Some z) \<Rightarrow> Some (((w * 16 + x) * 16 + y) * 16 + z)
      | _ \<Rightarrow> None)"

definition unescape :: "char \<Rightarrow> char option" where
  "unescape e =
     (if e = dquote then Some dquote
      else if e = backslash then Some backslash
      else if e = CHR ''/'' then Some CHR ''/''
      else if e = CHR ''b'' then Some (CHR 0x08)
      else if e = CHR ''f'' then Some (CHR 0x0C)
      else if e = CHR ''n'' then Some (CHR 0x0A)
      else if e = CHR ''r'' then Some (CHR 0x0D)
      else if e = CHR ''t'' then Some (CHR 0x09)
      else None)"

definition push :: "char \<Rightarrow> json_error + string \<times> string \<Rightarrow> json_error + string \<times> string" where
  "push c res = (case res of Inl e \<Rightarrow> Inl e | Inr (t, r) \<Rightarrow> Inr (c # t, r))"

fun parse_chars :: "string \<Rightarrow> json_error + string \<times> string" where
  "parse_chars [] = Inl SyntaxError"
| "parse_chars (c # r) =
     (if c = dquote then Inr ([], r)
      else if c = backslash then
        (case r of
           [] \<Rightarrow> Inl SyntaxError
         | e # r1 \<Rightarrow>
             if e = CHR ''u'' then
               (case r1 of
                  h1 # h2 # h3 # h4 # r2 \<Rightarrow>
                    (case hex4 h1 h2 h3 h4 of
                       None \<Rightarrow> Inl SyntaxError
                     | Some n \<Rightarrow>
                         if n < 256 then push (char_of n) (parse_chars r2) else Inl OutsideModel)
                | _ \<Rightarrow> Inl SyntaxError)
             else
               (case unescape e of
                  None \<Rightarrow> Inl SyntaxError
                | Some c' \<Rightarrow> push c' (parse_chars r1)))
      else if of_char c < (32::nat) then Inl SyntaxError
      else push c (parse_chars r))"

definition parse_number :: "string \<Rightarrow> json_error + jsvalue \<times> string" where
  "parse_number s =
     (let neg = (case s of [] \<Rightarrow> False | c # _ \<Rightarrow> c = CHR ''-'');
          t = (if neg then tl s else s);
          ds = takeWhile is_digit t;
          r = dropWhile is_digit t
      in if ds = [] then Inl SyntaxError
         else if hd ds = CHR ''0'' \<and> 1 < length ds then Inl SyntaxError
         else if (case r of [] \<Rightarrow> False | c # _ \<Rightarrow> c = CHR ''.'' \<or> c = CHR ''e'' \<or> c = CHR ''E'')
           then Inl OutsideModel
         else if neg \<and> digits_value ds = 0 then Inr (JNumber NegZero, r)
         else if neg then Inr (JNumber (Finite (- int (digits_value ds))), r)
         else Inr (JNumber (Finite (int (digits_value ds))), r))"

definition literal :: "string \<Rightarrow> jsvalue \<Rightarrow> string \<Rightarrow> json_error + jsvalue \<times> string" where
  "literal word v s = (if take (length word) s = word then Inr (v, drop (length word) s) else Inl SyntaxError)"

definition put :: "string \<Rightarrow> jsvalue \<Rightarrow> (string \<times> jsvalue) list \<Rightarrow> (string \<times> jsvalue) list" where
  "put k v kvs =
     (if k \<in> set (map fst kvs) then map (\<lambda>kv. if fst kv = k then (k, v) else kv) kvs
      else kvs @ [(k, v)])"

fun parse_value :: "nat \<Rightarrow> string \<Rightarrow> (json_error + jsvalue \<times> string) option"
  and parse_elements :: "nat \<Rightarrow> jsvalue list \<Rightarrow> string \<Rightarrow> (json_error + jsvalue \<times> string) option"
  and parse_members ::
    "nat \<Rightarrow> (string \<times> jsvalue) list \<Rightarrow> string \<Rightarrow> (json_error + jsvalue \<times> string) option"
where
  "parse_value 0 s = None"
| "parse_value (Suc n) s =
     (case skip_ws s of
        [] \<Rightarrow> Some (Inl SyntaxError)
      | c # r \<Rightarrow>
          if c = CHR ''n'' then Some (literal ''null'' JNull (c # r))
          else if c = CHR ''t'' then Some (literal ''true'' (JBool True) (c # r))
          else if c = CHR ''f'' then Some (literal ''false'' (JBool False) (c # r))
          else if c = dquote then
            Some (case parse_chars r of Inl e \<Rightarrow> Inl e | Inr (t, r') \<Rightarrow> Inr (JString t, r'))
          else if c = CHR ''-'' \<or> is_digit c then Some (parse_number (c # r))
          else if c = CHR ''['' then
            (case skip_ws r of
               [] \<Rightarrow> Some (Inl SyntaxError)
             | d # r' \<Rightarrow>
                 if d = CHR '']'' then Some (Inr (JArray [], r'))
                 else parse_elements n [] (d # r'))
          else if c = CHR ''{'' then
            (case skip_ws r of
               [] \<Rightarrow> Some (Inl SyntaxError)
             | d # r' \<Rightarrow>
                 if d = CHR ''}'' then Some (Inr (JObject [], r'))
                 else parse_members n [] (d # r'))
          else Some (Inl SyntaxError))"
| "parse_elements 0 acc s = None"
| "parse_elements (Suc n) acc s =
     (case parse_value n s of
        None \<Rightarrow> None
      | Some (Inl e) \<Rightarrow> Some (Inl e)
      | Some (Inr (v, r)) \<Rightarrow>
          (case skip_ws r of
             [] \<Rightarrow> Some (Inl SyntaxError)
           | d # r' \<Rightarrow>
               if d = CHR '','' then parse_elements n (acc @ [v]) r'
               else if d = CHR '']'' then Some (Inr (JArray (acc @ [v]), r'))
               else Some (Inl SyntaxError)))"
| "parse_members 0 acc s = None"
| "parse_members (Suc n) acc s =
     (case skip_ws s of
        [] \<Rightarrow> Some (Inl SyntaxError)
      | c # r \<Rightarrow>
          if c \<noteq> dquote then Some (Inl SyntaxError)
          else
            (case parse_chars r of
               Inl e \<Rightarrow> Some (Inl e)
             | Inr (k, r1) \<Rightarrow>
                 (case skip_ws r1 of
                    [] \<Rightarrow> Some (Inl SyntaxError)
                  | c1 # r2 \<Rightarrow>
                      if c1 \<noteq> CHR '':'' then Some (Inl SyntaxError)
                      else
                        (case parse_value n r2 of
                           None \<Rightarrow> None
                         | Some (Inl e) \<Rightarrow> Some (Inl e)
                         | Some (Inr (v, r3)) \<Rightarrow>
                             (case skip_ws r3 of
                                [] \<Rightarrow> Some (Inl SyntaxError)
                              | d # r4 \<Rightarrow>
                                  if d = CHR '','' then parse_members n (put k v acc) r4
                                  else if d = CHR ''}'' then Some (Inr (JObject (put k v acc), r4))
                                  else Some (Inl SyntaxError))))))"

definition JSON_parse :: "string \<Rightarrow> (json_error + jsvalue) option" where
  "JSON_parse text =
     (case parse_value (Suc (2 * length text)) text of
        None \<Rightarrow> None
      | Some (Inl e) \<Rightarrow> Some (Inl e)
      | Some (Inr (v, r)) \<Rightarrow> if skip_ws r = [] then Some (Inr v) else Some (Inl SyntaxError))"





text \<open>What may follow a value inside a sequence or mapping, or at the end of the text.\<close>

definition stops :: "string \<Rightarrow> bool" where
  "stops r \<longleftrightarrow> (case r of [] \<Rightarrow> True | c # _ \<Rightarrow> c = CHR '','' \<or> c = CHR '']'' \<or> c = CHR ''}'')"

text \<open>A parser call finishes on an input: it returns, and what it leaves is shorter.\<close>

definition finishes :: "(json_error + jsvalue \<times> string) option \<Rightarrow> string \<Rightarrow> bool" where
  "finishes res s \<longleftrightarrow>
     (case res of None \<Rightarrow> False | Some (Inl e) \<Rightarrow> True | Some (Inr (v, r)) \<Rightarrow> length r < length s)"


section \<open>Substring search\<close>

lemma includes_sublist: "includes' t s \<longleftrightarrow> sublist s t"
  by (induction t) (auto simp: sublist_Cons_right split: list.splits)

lemma includes_char: "includes' t [c] \<longleftrightarrow> c \<in> set t"
  by (induction t) auto

lemma includes_set: "includes' t s \<Longrightarrow> set s \<subseteq> set t"
  unfolding includes_sublist by (rule set_mono_sublist)

lemma includes_colons: "includes' t ''::'' \<Longrightarrow> CHR '':'' \<in> set t"
  using includes_set [of t "''::''"] by simp

lemma err_distinct: "err1 \<noteq> err2"
  by (simp add: err1_def err2_def)


section \<open>What a call does to the text and the flag\<close>

lemma start_value: "value' (start m v) = token m v"
  by (cases m)
    (simp_all add: builder_element_def builder_id_def builder_class_def builder_attr_def
      builder_pseudoClass_def builder_pseudoElement_def new_CssClass_def)

lemma start_elem: "elem (start m v) \<longleftrightarrow> m = M_element"
  by (cases m)
    (simp_all add: builder_element_def builder_id_def builder_class_def builder_attr_def
      builder_pseudoClass_def builder_pseudoElement_def new_CssClass_def)

lemma append_result:
  assumes "append' m f v = Inr f'"
  shows "f' = \<lparr>value' = value' f @ token m v, elem = elem f\<rparr>"
  using assms
  by (cases m)
    (simp_all add: element_def id'_def class'_def attr_def pseudoClass_def pseudoElement_def
      new_CssClass_def split: if_splits)

lemma chain_elem: "chain f cs = Inr f' \<Longrightarrow> elem f' = elem f"
proof (induction cs arbitrary: f)
  case Nil
  then show ?case by simp
next
  case (Cons c cs)
  from Cons.prems obtain g where g: "append' (fst c) f (snd c) = Inr g" and rest: "chain g cs = Inr f'"
    by (auto split: sum.splits)
  from append_result [OF g] have "elem g = elem f" by simp
  with Cons.IH [OF rest] show ?case by simp
qed

lemma chain_value:
  "chain f cs = Inr f' \<Longrightarrow> value' f' = value' f @ concat (map (\<lambda>c. token (fst c) (snd c)) cs)"
proof (induction cs arbitrary: f)
  case Nil
  then show ?case by simp
next
  case (Cons c cs)
  from Cons.prems obtain g where g: "append' (fst c) f (snd c) = Inr g" and rest: "chain g cs = Inr f'"
    by (auto split: sum.splits)
  from append_result [OF g] have "value' g = value' f @ token (fst c) (snd c)" by simp
  with Cons.IH [OF rest] show ?case by simp
qed

lemma built_value:
  "chain (start m v) cs = Inr f \<Longrightarrow>
     value' f = concat (map (\<lambda>c. token (fst c) (snd c)) ((m, v) # cs))"
  by (simp add: chain_value start_value)

lemma built_elem: "chain (start m v) cs = Inr f \<Longrightarrow> elem f \<longleftrightarrow> m = M_element"
  by (simp add: chain_elem start_elem)

lemma element_nonempty:
  "value' f \<noteq> [] \<Longrightarrow> element f val = Inl (if elem f then Error err1 else Error err2)"
  by (simp add: element_def)

lemma built_token_chars:
  assumes "chain (start m v) cs = Inr f" and "c \<in> set ((m, v) # cs)"
  shows "set (token (fst c) (snd c)) \<subseteq> set (value' f)"
  using assms(2) unfolding built_value [OF assms(1)] by auto

section \<open>The store and the values\<close>

text \<open>
  The methods on the store compute what the methods on values compute: the new
  object is the value the method returns, put at the end of the store.
\<close>

lemma st_new_CssClass_eq: "st_new_CssClass h v el = (length h, h @ [new_CssClass v el])"
  by (simp add: st_new_CssClass_def assign_value_def assign_elem_def new_CssClass_def Let_def)

lemma return_new_eq: "return_new h v el = (Inr (length h), h @ [new_CssClass v el])"
  by (simp add: return_new_def st_new_CssClass_eq)

lemma invoke_append':
  "invoke m h this val =
     (case append' m (h ! this) val of
        Inl e \<Rightarrow> (Inl e, h)
      | Inr obj \<Rightarrow> (Inr (length h), h @ [obj]))"
  by (cases m)
    (simp_all add: st_element_def st_id_def st_class_def st_attr_def st_pseudoClass_def
      st_pseudoElement_def element_def id'_def class'_def attr_def pseudoClass_def
      pseudoElement_def return_new_eq)

lemma invoke_combine_combine:
  "invoke_combine h s1 comb s2 = (length h, h @ [combine (h ! s1) comb (h ! s2)])"
  by (simp add: invoke_combine_def st_new_CssClass_eq combine_def stringify_def st_stringify_def)


section \<open>Numbers and strings come back from their text\<close>


lemma skip_ws_stops: "stops r \<Longrightarrow> skip_ws r = r"
  by (cases r) (auto simp: stops_def skip_ws_def is_ws_def)
























section \<open>Values come back from their text\<close>













declare parse_value.simps [simp del] parse_elements.simps [simp del] parse_members.simps [simp del]






section \<open>The parser always returns\<close>

lemma length_skip_ws: "length (skip_ws s) \<le> length s"
  by (simp add: skip_ws_def length_dropWhile_le)

lemma skip_ws_Cons_length: "skip_ws s = c # r \<Longrightarrow> length r < length s"
  using length_skip_ws [of s] by simp

lemma push_Inr: "push c res = Inr (t, r) \<Longrightarrow> \<exists>t'. res = Inr (t', r)"
  by (auto simp: push_def split: sum.splits)

lemma parse_chars_shorter: "parse_chars s = Inr (t, r) \<Longrightarrow> length r < length s"
proof (induction s arbitrary: t rule: length_induct)
  case (1 s)
  have ih: "length r < length s'" if "length s' < length s" "parse_chars s' = Inr (t', r)" for s' t'
    using "1.IH" that by blast
  from "1.prems" obtain c r0 where s: "s = c # r0" by (cases s) auto
  show ?case
  proof (cases "c = dquote")
    case True
    with "1.prems" s show ?thesis by simp
  next
    case nq: False
    show ?thesis
    proof (cases "c = backslash")
      case False
      with nq "1.prems" s have "push c (parse_chars r0) = Inr (t, r)"
        by (auto split: if_splits)
      then obtain t' where "parse_chars r0 = Inr (t', r)" using push_Inr by blast
      from ih [OF _ this] s show ?thesis by simp
    next
      case True
      from "1.prems" nq True s obtain e r1 where r0: "r0 = e # r1"
        by (cases r0) auto
      show ?thesis
      proof (cases "e = CHR ''u''")
        case u: True
        from "1.prems" nq True s r0 u
        have "\<exists>r2 x. length r2 < length s \<and> push x (parse_chars r2) = Inr (t, r)"
          by (force split: list.splits option.splits if_splits)
        then obtain r2 x where l: "length r2 < length s"
          and p: "push x (parse_chars r2) = Inr (t, r)" by blast
        from p obtain t' where "parse_chars r2 = Inr (t', r)" using push_Inr by blast
        from ih [OF l this] l show ?thesis by simp
      next
        case nu: False
        from "1.prems" nq True s r0 nu obtain c' where
          p: "push c' (parse_chars r1) = Inr (t, r)"
          by (auto split: option.splits)
        from p obtain t' where "parse_chars r1 = Inr (t', r)" using push_Inr by blast
        from ih [OF _ this] s r0 show ?thesis by simp
      qed
    qed
  qed
qed

lemma dropWhile_shorter: "takeWhile P xs \<noteq> [] \<Longrightarrow> length (dropWhile P xs) < length xs"
  by (cases xs) (auto simp: le_imp_less_Suc length_dropWhile_le split: if_splits)

lemma parse_number_shorter: "parse_number s = Inr (v, r) \<Longrightarrow> length r < length s"
proof -
  assume a: "parse_number s = Inr (v, r)"
  let ?neg = "(case s of [] \<Rightarrow> False | c # _ \<Rightarrow> c = CHR ''-'')"
  let ?t = "if ?neg then tl s else s"
  from a have ne: "takeWhile is_digit ?t \<noteq> []" and r: "r = dropWhile is_digit ?t"
    by (auto simp: parse_number_def Let_def split: if_splits)
  from dropWhile_shorter [OF ne] r have "length r < length ?t" by simp
  moreover have "length ?t \<le> length s" by simp
  ultimately show ?thesis by simp
qed

lemma literal_shorter: "literal word v s = Inr (x, r) \<Longrightarrow> word \<noteq> [] \<Longrightarrow> length r < length s"
  by (cases s) (auto simp: literal_def split: if_splits)

lemma finishes_simps:
  "\<not> finishes None s" "finishes (Some (Inl e)) s"
  "finishes (Some (Inr (v, r))) s \<longleftrightarrow> length r < length s"
  by (simp_all add: finishes_def)

lemma finishes_mono: "finishes res s \<Longrightarrow> length s \<le> length s' \<Longrightarrow> finishes res s'"
  by (auto simp: finishes_def split: option.splits sum.splits)

lemma finishes_Some: "finishes (Some x) s \<longleftrightarrow> (case x of Inl e \<Rightarrow> True | Inr (v, r) \<Rightarrow> length r < length s)"
  by (auto simp: finishes_def split: sum.splits)

lemma finishes_if:
  "(b \<Longrightarrow> finishes x s) \<Longrightarrow> (\<not> b \<Longrightarrow> finishes y s) \<Longrightarrow> finishes (if b then x else y) s"
  by simp

lemma parser_finishes:
  "(2 * length s < n \<longrightarrow> finishes (parse_value n s) s)
   \<and> (2 * length s + 1 < n \<longrightarrow> finishes (parse_elements n acc s) s)
   \<and> (2 * length s + 1 < n \<longrightarrow> finishes (parse_members n kacc s) s)"
proof (induction n arbitrary: s acc kacc)
  case 0
  show ?case by simp
next
  case (Suc n)
  have value_ih: "finishes (parse_value n s') s'" if "2 * length s' < n" for s'
    using Suc.IH [of s'] that by blast
  have elements_ih: "finishes (parse_elements n acc' s') s'" if "2 * length s' + 1 < n" for s' acc'
    using Suc.IH [of s' acc'] that by blast
  have members_ih: "finishes (parse_members n acc' s') s'" if "2 * length s' + 1 < n" for s' acc'
    using Suc.IH [of s' _ acc'] that by blast
  have v: "finishes (parse_value (Suc n) s) s" if fuel: "2 * length s < Suc n"
  proof (cases "skip_ws s")
    case Nil
    then show ?thesis by (simp add: parse_value.simps finishes_simps)
  next
    case (Cons c r)
    from skip_ws_Cons_length [OF Cons] have len: "length r < length s" .
    have lit: "finishes (Some (literal w x (c # r))) s" if "w \<noteq> []" for w x
    proof (cases "literal w x (c # r)")
      case (Inr p)
      obtain y r' where "p = (y, r')" by (cases p)
      with Inr literal_shorter [of w x "c # r" y r'] that len show ?thesis
        by (simp add: finishes_simps)
    qed (simp add: finishes_simps)
    have str: "finishes (Some (case parse_chars r of Inl e \<Rightarrow> Inl e | Inr (t, r') \<Rightarrow> Inr (JString t, r'))) s"
    proof (cases "parse_chars r")
      case (Inr p)
      obtain t r' where "p = (t, r')" by (cases p)
      with Inr parse_chars_shorter [of r t r'] len show ?thesis by (simp add: finishes_simps)
    qed (simp add: finishes_simps)
    have num: "finishes (Some (parse_number (c # r))) s"
    proof (cases "parse_number (c # r)")
      case (Inr p)
      obtain y r' where "p = (y, r')" by (cases p)
      with Inr parse_number_shorter [of "c # r" y r'] len show ?thesis by (simp add: finishes_simps)
    qed (simp add: finishes_simps)
    have arr: "finishes (case skip_ws r of [] \<Rightarrow> Some (Inl SyntaxError)
        | d # r' \<Rightarrow> if d = CHR '']'' then Some (Inr (JArray [], r')) else parse_elements n [] (d # r')) s"
    proof (cases "skip_ws r")
      case Nil
      then show ?thesis by (simp add: finishes_simps)
    next
      case inner: (Cons d r')
      from skip_ws_Cons_length [OF inner] len have l: "length (d # r') < length s" by simp
      with fuel have "2 * length (d # r') + 1 < n" by simp
      from elements_ih [OF this, of "[]"] l inner len show ?thesis
        by (auto simp: finishes_simps intro: finishes_mono)
    qed
    have obj: "finishes (case skip_ws r of [] \<Rightarrow> Some (Inl SyntaxError)
        | d # r' \<Rightarrow> if d = CHR ''}'' then Some (Inr (JObject [], r')) else parse_members n [] (d # r')) s"
    proof (cases "skip_ws r")
      case Nil
      then show ?thesis by (simp add: finishes_simps)
    next
      case inner: (Cons d r')
      from skip_ws_Cons_length [OF inner] len have l: "length (d # r') < length s" by simp
      with fuel have "2 * length (d # r') + 1 < n" by simp
      from members_ih [OF this, of "[]"] l inner len show ?thesis
        by (auto simp: finishes_simps intro: finishes_mono)
    qed
    have l1: "finishes (Some (literal ''null'' JNull (c # r))) s"
      and l2: "finishes (Some (literal ''true'' (JBool True) (c # r))) s"
      and l3: "finishes (Some (literal ''false'' (JBool False) (c # r))) s"
      by (rule lit, simp)+
    have bad: "finishes (Some (Inl SyntaxError)) s" by (simp add: finishes_simps)
    show ?thesis
      unfolding parse_value.simps Cons list.case
      by (intro finishes_if; rule l1 l2 l3 str num arr obj bad)
  qed
  have e: "finishes (parse_elements (Suc n) acc s) s" if fuel: "2 * length s + 1 < Suc n"
  proof -
    from fuel have f: "2 * length s < n" by simp
    from value_ih [OF f] obtain res where res: "parse_value n s = Some res"
      by (cases "parse_value n s") (auto simp: finishes_simps)
    show ?thesis
    proof (cases res)
      case (Inl err)
      with res show ?thesis by (simp add: parse_elements.simps finishes_simps)
    next
      case (Inr p)
      obtain x r where p: "p = (x, r)" by (cases p)
      from value_ih [OF f] res Inr p have len: "length r < length s"
        by (simp add: finishes_simps)
      show ?thesis
      proof (cases "skip_ws r")
        case Nil
        with res Inr p show ?thesis by (simp add: parse_elements.simps finishes_simps)
      next
        case (Cons d r')
        from skip_ws_Cons_length [OF Cons] len have l: "length r' < length s" "length r' + 2 \<le> length s"
          by simp_all
        with fuel have "2 * length r' + 1 < n" by simp
        from elements_ih [OF this, of "acc @ [x]"] l(1)
        have "finishes (parse_elements n (acc @ [x]) r') s"
          by (auto intro: finishes_mono)
        with res Inr p Cons l show ?thesis
          by (simp add: parse_elements.simps finishes_simps)
      qed
    qed
  qed
  have m: "finishes (parse_members (Suc n) kacc s) s" if fuel: "2 * length s + 1 < Suc n"
  proof (cases "skip_ws s")
    case Nil
    then show ?thesis by (simp add: parse_members.simps finishes_simps)
  next
    case (Cons c r)
    from skip_ws_Cons_length [OF Cons] have len: "length r < length s" .
    show ?thesis
    proof (cases "parse_chars r")
      case (Inl err)
      with Cons show ?thesis by (simp add: parse_members.simps finishes_simps)
    next
      case (Inr p)
      obtain k r1 where p: "p = (k, r1)" by (cases p)
      from parse_chars_shorter [of r k r1] Inr p have l1: "length r1 < length r" by simp
      show ?thesis
      proof (cases "skip_ws r1")
        case Nil
        with Cons Inr p show ?thesis by (simp add: parse_members.simps finishes_simps)
      next
        case c1: (Cons c1 r2)
        from skip_ws_Cons_length [OF c1] l1 len have l2: "length r2 + 2 < length s" by simp
        with fuel have f2: "2 * length r2 < n" by simp
        from value_ih [OF f2] obtain res where res: "parse_value n r2 = Some res"
          by (cases "parse_value n r2") (auto simp: finishes_simps)
        show ?thesis
        proof (cases res)
          case (Inl err)
          with Cons Inr p c1 res show ?thesis by (simp add: parse_members.simps finishes_simps)
        next
          case inr: (Inr q)
          obtain x r3 where q: "q = (x, r3)" by (cases q)
          from value_ih [OF f2] res inr q have l3: "length r3 < length r2"
            by (simp add: finishes_simps)
          show ?thesis
          proof (cases "skip_ws r3")
            case Nil
            with Cons Inr p c1 res inr q show ?thesis
              by (simp add: parse_members.simps finishes_simps)
          next
            case c4: (Cons d r4)
            from skip_ws_Cons_length [OF c4] l3 l2 have l4: "length r4 < length s" "length r4 + 4 \<le> length s"
              by simp_all
            with fuel have "2 * length r4 + 1 < n" by simp
            from members_ih [OF this, of "put k x kacc"] l4(1)
            have "finishes (parse_members n (put k x kacc) r4) s"
              by (auto intro: finishes_mono)
            with Cons Inr p c1 res inr q c4 l4 show ?thesis
              by (simp add: parse_members.simps finishes_simps)
          qed
        qed
      qed
    qed
  qed
  from v e m show ?case by blast
qed

lemma JSON_parse_total: "JSON_parse json \<noteq> None"
proof -
  have "2 * length json < Suc (2 * length json)" by simp
  with parser_finishes [of json "Suc (2 * length json)"]
  have "finishes (parse_value (Suc (2 * length json)) json) json" by blast
  then show ?thesis
    by (auto simp: JSON_parse_def finishes_def split: option.splits sum.splits)
qed


section \<open>Claims\<close>

text \<open>
  C1. Every append (element, id, class, attr, pseudoClass, pseudoElement) and
  combine is non-mutating. A call that succeeds returns a reference to a new
  object, one that no earlier reference points to, holding the fragment the method
  computes, and every object that existed before the call, the receiver among
  them, is unchanged and renders the same string. A call that fails returns the
  method's error and no fragment, and leaves the store as it was.
\<close>

theorem calls_do_not_mutate:
  assumes "this < length h" and "other < length h"
  shows "(\<forall>e h'. invoke m h this val = (Inl e, h') \<longrightarrow>
          h' = h \<and> append' m (h ! this) val = Inl e)
    \<and> (\<forall>r h'. invoke m h this val = (Inr r, h') \<longrightarrow>
          r = length h \<and> length h' = Suc (length h)
          \<and> append' m (h ! this) val = Inr (h' ! r)
          \<and> (\<forall>q < length h. h' ! q = h ! q)
          \<and> stringify (h' ! this) = stringify (h ! this))
    \<and> (\<forall>r h'. invoke_combine h this comb other = (r, h') \<longrightarrow>
          r = length h \<and> length h' = Suc (length h)
          \<and> h' ! r = combine (h ! this) comb (h ! other)
          \<and> (\<forall>q < length h. h' ! q = h ! q)
          \<and> stringify (h' ! this) = stringify (h ! this)
          \<and> stringify (h' ! other) = stringify (h ! other))"
proof -
  have fails: "h' = h \<and> append' m (h ! this) val = Inl e"
    if "invoke m h this val = (Inl e, h')" for e h'
    using that unfolding invoke_append' by (simp split: sum.splits)
  have succeeds: "r = length h \<and> length h' = Suc (length h)
        \<and> append' m (h ! this) val = Inr (h' ! r)
        \<and> (\<forall>q < length h. h' ! q = h ! q)
        \<and> stringify (h' ! this) = stringify (h ! this)"
    if "invoke m h this val = (Inr r, h')" for r h'
    using that assms(1) unfolding invoke_append' by (auto simp: nth_append split: sum.splits)
  have combined: "r = length h \<and> length h' = Suc (length h)
        \<and> h' ! r = combine (h ! this) comb (h ! other)
        \<and> (\<forall>q < length h. h' ! q = h ! q)
        \<and> stringify (h' ! this) = stringify (h ! this)
        \<and> stringify (h' ! other) = stringify (h ! other)"
    if "invoke_combine h this comb other = (r, h')" for r h'
    using that assms unfolding invoke_combine_combine by (auto simp: nth_append)
  from fails succeeds combined show ?thesis by blast
qed

theorem calls_do_not_mutate_witness:
  "invoke M_class [builder_element ''div'', builder_pseudoClass ''hover''] 1 ''c''
      = (Inl SegmentOrderError, [builder_element ''div'', builder_pseudoClass ''hover''])
   \<and> invoke M_id [builder_element ''div'', builder_pseudoClass ''hover''] 0 ''main''
      = (Inr 2, [builder_element ''div'', builder_pseudoClass ''hover'',
                 \<lparr>value' = ''div#main'', elem = True\<rparr>])
   \<and> invoke_combine [builder_element ''div'', builder_pseudoClass ''hover''] 0 ''>'' 1
      = (2, [builder_element ''div'', builder_pseudoClass ''hover'',
             \<lparr>value' = ''div > :hover'', elem = False\<rparr>])
   \<and> stringify ([builder_element ''div'', builder_pseudoClass ''hover'',
                 \<lparr>value' = ''div#main'', elem = True\<rparr>] ! 0)
      = stringify ([builder_element ''div'', builder_pseudoClass ''hover''] ! 0)"
proof -
  let ?h = "[builder_element ''div'', builder_pseudoClass ''hover'']"
  have b0: "(0::nat) < length ?h" and b1: "(1::nat) < length ?h" by simp_all
  have c1: "invoke M_class ?h 1 ''c'' = (Inl SegmentOrderError, ?h)"
    by (simp add: st_class_def builder_pseudoClass_def new_CssClass_def)
  have c2: "invoke M_id ?h 0 ''main''
      = (Inr 2, ?h @ [\<lparr>value' = ''div#main'', elem = True\<rparr>])"
    by (simp add: st_id_def return_new_eq builder_element_def new_CssClass_def)
  have c3: "invoke_combine ?h 0 ''>'' 1
      = (2, ?h @ [\<lparr>value' = ''div > :hover'', elem = False\<rparr>])"
    by (simp add: invoke_combine_def st_new_CssClass_eq st_stringify_def builder_element_def
        builder_pseudoClass_def new_CssClass_def)
  from calls_do_not_mutate [OF b0 b1, of M_id "''main''" "''>''"] c2
  have "stringify ((?h @ [\<lparr>value' = ''div#main'', elem = True\<rparr>]) ! 0) = stringify (?h ! 0)"
    by blast
  with c1 c2 c3 show ?thesis by simp
qed

text \<open>
  C2 (as the code has it). Appending a tag to a fragment that contains a
  pseudo-element segment always fails. The flag records a tag only: it is set
  exactly when the chain was started with the tag starter. The failure is the
  duplicate error when the flag is set and the ordering error otherwise; in
  particular appending a tag to a fragment created by the pseudo-element starter
  fails with the ordering error.
\<close>

theorem tag_after_pseudoElement:
  assumes "chain (start m v) cs = Inr f"
    and "M_pseudoElement \<in> set (map fst ((m, v) # cs))"
  shows "element f val = Inl (if m = M_element then DuplicateSegmentError else SegmentOrderError)
    \<and> element (builder_pseudoElement v') val = Inl SegmentOrderError"
proof -
  from assms(2) have "M_pseudoElement \<in> fst ` set ((m, v) # cs)"
    by (simp only: set_map)
  then obtain c where c: "c \<in> set ((m, v) # cs)" and "M_pseudoElement = fst c"
    by (rule imageE)
  then have "CHR '':'' \<in> set (token (fst c) (snd c))" by simp
  with built_token_chars [OF assms(1) c] have "value' f \<noteq> []" by auto
  then have "element f val = Inl (if elem f then DuplicateSegmentError else SegmentOrderError)"
    by (rule element_nonempty)
  moreover have "elem f \<longleftrightarrow> m = M_element" by (rule built_elem [OF assms(1)])
  moreover have "element (builder_pseudoElement v') val = Inl SegmentOrderError"
    by (simp add: element_def builder_pseudoElement_def new_CssClass_def)
  ultimately show ?thesis by simp
qed

theorem tag_after_pseudoElement_witness:
  "chain (start M_element ''p'') [(M_pseudoElement, ''first-line'')]
      = Inr \<lparr>value' = ''p::first-line'', elem = True\<rparr>
   \<and> element \<lparr>value' = ''p::first-line'', elem = True\<rparr> ''div'' = Inl DuplicateSegmentError
   \<and> chain (start M_id ''x'') [(M_pseudoElement, ''after'')]
      = Inr \<lparr>value' = ''#x::after'', elem = False\<rparr>
   \<and> element \<lparr>value' = ''#x::after'', elem = False\<rparr> ''div'' = Inl SegmentOrderError"
proof -
  have h1: "chain (start M_element ''p'') [(M_pseudoElement, ''first-line'')]
      = Inr \<lparr>value' = ''p::first-line'', elem = True\<rparr>"
    by (simp add: builder_element_def pseudoElement_def new_CssClass_def)
  have h2: "chain (start M_id ''x'') [(M_pseudoElement, ''after'')]
      = Inr \<lparr>value' = ''#x::after'', elem = False\<rparr>"
    by (simp add: builder_id_def pseudoElement_def new_CssClass_def)
  have m1: "M_pseudoElement \<in> set (map fst [(M_element, ''p''), (M_pseudoElement, ''first-line'')])"
    by simp
  have m2: "M_pseudoElement \<in> set (map fst [(M_id, ''x''), (M_pseudoElement, ''after'')])"
    by simp
  from tag_after_pseudoElement [OF h1 m1, of "''div''"]
    tag_after_pseudoElement [OF h2 m2, of "''div''"] h1 h2
  show ?thesis by simp
qed

text \<open>
  C2 as stated fails: the fragment builder.pseudoElement('after') contains a
  pseudo-element segment, and appending the tag 'div' to it fails with the ordering
  error, which is not the duplicate error.
\<close>

theorem tag_after_pseudoElement_counterexample:
  "chain (start M_pseudoElement ''after'') [] = Inr (builder_pseudoElement ''after'')
   \<and> element (builder_pseudoElement ''after'') ''div'' = Inl SegmentOrderError
   \<and> element (builder_pseudoElement ''after'') ''div'' \<noteq> Inl DuplicateSegmentError"
  by (simp add: element_def builder_pseudoElement_def new_CssClass_def err_distinct [symmetric])

text \<open>
  C3. Appending a class to a fragment built only from tag, id and class segments
  is to succeed, whatever characters the names contain. The code looks for the
  characters '[' and ':' in the whole text instead: the fragment
  builder.class('a:b') and the fragment builder.element('x').class('w[1]') are
  built from tag and class segments only, with no attribute, pseudo-class or
  pseudo-element segment, and appending a class to either throws the ordering
  error.
\<close>

theorem class_after_class_throws:
  "chain (start M_class ''a:b'') [] = Inr \<lparr>value' = ''.a:b'', elem = False\<rparr>
   \<and> set (map fst [(M_class, ''a:b'')]) \<inter> {M_attr, M_pseudoClass, M_pseudoElement} = {}
   \<and> class' \<lparr>value' = ''.a:b'', elem = False\<rparr> ''c'' = Inl SegmentOrderError
   \<and> chain (start M_element ''x'') [(M_class, ''w[1]'')]
      = Inr \<lparr>value' = ''x.w[1]'', elem = True\<rparr>
   \<and> set (map fst [(M_element, ''x''), (M_class, ''w[1]'')])
        \<inter> {M_attr, M_pseudoClass, M_pseudoElement} = {}
   \<and> class' \<lparr>value' = ''x.w[1]'', elem = True\<rparr> ''c'' = Inl SegmentOrderError"
  by (simp add: builder_class_def builder_element_def new_CssClass_def class'_def)

text \<open>
  C4. For every pair of fragments and every operator string (the four combinators
  among them), combine returns a fragment that renders as the left rendering, a
  space, the operator, a space and the right rendering. The chain
  builder.element('div').id('main') succeeds, and combined by '+' with
  builder.element('p') it renders as "div#main + p". With the descendant combinator
  (one space) the two renderings are joined by exactly three spaces.
\<close>

theorem combine_renders:
  "stringify (combine a comb b) = stringify a @ '' '' @ comb @ '' '' @ stringify b
   \<and> chain (start M_element ''div'') [(M_id, ''main'')] = Inr \<lparr>value' = ''div#main'', elem = True\<rparr>
   \<and> stringify (combine \<lparr>value' = ''div#main'', elem = True\<rparr> ''+'' (start M_element ''p''))
       = ''div#main + p''
   \<and> stringify (combine a '' '' b) = stringify a @ ''   '' @ stringify b"
  by (simp add: combine_def stringify_def new_CssClass_def builder_element_def id'_def)

text \<open>
  C5. The two worked chains: builder.id('main').class('container').class('editable')
  renders "#main.container.editable", and
  builder.element('a').attr('href$=".png"').pseudoClass('focus') renders
  'a[href$=".png"]:focus'. Every starter begins the text with its token. Every
  append either throws or returns the fragment with its token put after the old
  text and the flag copied: the name itself for a tag, and the name after '#',
  after '.', between '[' and ']', after ':' and after '::' for id, class,
  attribute, pseudo-class and pseudo-element. Which of the two it does is fixed
  for each method by the old text and flag.
\<close>

theorem worked_chains:
  "element f v =
     (if elem f then Inl DuplicateSegmentError
      else if value' f \<noteq> [] then Inl SegmentOrderError
      else Inr \<lparr>value' = value' f @ v, elem = elem f\<rparr>)
   \<and> id' f v =
     (if CHR ''#'' \<in> set (value' f) then Inl DuplicateSegmentError
      else if CHR ''.'' \<in> set (value' f) \<or> CHR ''['' \<in> set (value' f)
              \<or> CHR '':'' \<in> set (value' f) then Inl SegmentOrderError
      else Inr \<lparr>value' = value' f @ ''#'' @ v, elem = elem f\<rparr>)
   \<and> class' f v =
     (if CHR ''['' \<in> set (value' f) \<or> CHR '':'' \<in> set (value' f) then Inl SegmentOrderError
      else Inr \<lparr>value' = value' f @ ''.'' @ v, elem = elem f\<rparr>)
   \<and> attr f v =
     (if CHR '':'' \<in> set (value' f) then Inl SegmentOrderError
      else Inr \<lparr>value' = value' f @ ''['' @ v @ '']'', elem = elem f\<rparr>)
   \<and> pseudoClass f v =
     (if includes' (value' f) ''::'' then Inl SegmentOrderError
      else Inr \<lparr>value' = value' f @ '':'' @ v, elem = elem f\<rparr>)
   \<and> pseudoElement f v =
     (if includes' (value' f) ''::'' then Inl DuplicateSegmentError
      else Inr \<lparr>value' = value' f @ ''::'' @ v, elem = elem f\<rparr>)
   \<and> (\<forall>f'. append' m f v = Inr f' \<longrightarrow> stringify f' = stringify f @ token m v)
   \<and> stringify (start m v) = token m v
   \<and> stringify (builder_id v) = ''#'' @ v
   \<and> stringify (builder_class v) = ''.'' @ v
   \<and> stringify (builder_attr v) = ''['' @ v @ '']''
   \<and> stringify (builder_pseudoClass v) = '':'' @ v
   \<and> stringify (builder_pseudoElement v) = ''::'' @ v
   \<and> map_sum id stringify (chain (builder_id ''main'') [(M_class, ''container''), (M_class, ''editable'')])
        = Inr ''#main.container.editable''
   \<and> map_sum id stringify
         (chain (builder_element ''a'') [(M_attr, ''href$=\".png\"''), (M_pseudoClass, ''focus'')])
        = Inr ''a[href$=\".png\"]:focus''"
proof -
  have e: "element f v =
     (if elem f then Inl DuplicateSegmentError
      else if value' f \<noteq> [] then Inl SegmentOrderError
      else Inr \<lparr>value' = value' f @ v, elem = elem f\<rparr>)"
    by (simp add: element_def new_CssClass_def)
  have i: "id' f v =
     (if CHR ''#'' \<in> set (value' f) then Inl DuplicateSegmentError
      else if CHR ''.'' \<in> set (value' f) \<or> CHR ''['' \<in> set (value' f)
              \<or> CHR '':'' \<in> set (value' f) then Inl SegmentOrderError
      else Inr \<lparr>value' = value' f @ ''#'' @ v, elem = elem f\<rparr>)"
    using includes_colons [of "value' f"]
    by (auto simp: id'_def new_CssClass_def includes_char)
  have c: "class' f v =
     (if CHR ''['' \<in> set (value' f) \<or> CHR '':'' \<in> set (value' f) then Inl SegmentOrderError
      else Inr \<lparr>value' = value' f @ ''.'' @ v, elem = elem f\<rparr>)"
    using includes_colons [of "value' f"]
    by (auto simp: class'_def new_CssClass_def includes_char)
  have a: "attr f v =
     (if CHR '':'' \<in> set (value' f) then Inl SegmentOrderError
      else Inr \<lparr>value' = value' f @ ''['' @ v @ '']'', elem = elem f\<rparr>)"
    using includes_colons [of "value' f"]
    by (auto simp: attr_def new_CssClass_def includes_char)
  have pc: "pseudoClass f v =
     (if includes' (value' f) ''::'' then Inl SegmentOrderError
      else Inr \<lparr>value' = value' f @ '':'' @ v, elem = elem f\<rparr>)"
    by (simp add: pseudoClass_def new_CssClass_def)
  have pe: "pseudoElement f v =
     (if includes' (value' f) ''::'' then Inl DuplicateSegmentError
      else Inr \<lparr>value' = value' f @ ''::'' @ v, elem = elem f\<rparr>)"
    by (simp add: pseudoElement_def new_CssClass_def)
  have app: "\<forall>f'. append' m f v = Inr f' \<longrightarrow> stringify f' = stringify f @ token m v"
  proof (intro allI impI)
    fix f' assume "append' m f v = Inr f'"
    from append_result [OF this] show "stringify f' = stringify f @ token m v"
      by (simp add: stringify_def)
  qed
  have st: "stringify (start m v) = token m v"
    by (simp add: stringify_def start_value)
  have starters: "stringify (builder_id v) = ''#'' @ v" "stringify (builder_class v) = ''.'' @ v"
    "stringify (builder_attr v) = ''['' @ v @ '']''" "stringify (builder_pseudoClass v) = '':'' @ v"
    "stringify (builder_pseudoElement v) = ''::'' @ v"
    by (simp_all add: stringify_def builder_id_def builder_class_def builder_attr_def
        builder_pseudoClass_def builder_pseudoElement_def new_CssClass_def)
  have w1: "map_sum id stringify
      (chain (builder_id ''main'') [(M_class, ''container''), (M_class, ''editable'')])
        = Inr ''#main.container.editable''"
    by (simp add: builder_id_def class'_def new_CssClass_def stringify_def)
  have w2: "map_sum id stringify
      (chain (builder_element ''a'') [(M_attr, ''href$=\".png\"''), (M_pseudoClass, ''focus'')])
        = Inr ''a[href$=\".png\"]:focus''"
    by (simp add: builder_element_def attr_def pseudoClass_def new_CssClass_def stringify_def)
  show ?thesis
    by (intro conjI) (fact e i c a pc pe app st starters w1 w2)+
qed

theorem worked_chains_witness:
  "append' M_id (builder_element ''div'') ''main'' = Inr \<lparr>value' = ''div#main'', elem = True\<rparr>
   \<and> stringify \<lparr>value' = ''div#main'', elem = True\<rparr>
       = stringify (builder_element ''div'') @ token M_id ''main''
   \<and> chain (builder_element ''a'')
        [(M_id, ''b''), (M_class, ''c''), (M_attr, ''d''), (M_pseudoClass, ''e''),
         (M_pseudoElement, ''f'')]
      = Inr \<lparr>value' = ''a#b.c[d]:e::f'', elem = True\<rparr>"
proof -
  have h: "append' M_id (builder_element ''div'') ''main''
      = Inr \<lparr>value' = ''div#main'', elem = True\<rparr>"
    by (simp add: builder_element_def id'_def new_CssClass_def)
  have all: "chain (builder_element ''a'')
        [(M_id, ''b''), (M_class, ''c''), (M_attr, ''d''), (M_pseudoClass, ''e''),
         (M_pseudoElement, ''f'')]
      = Inr \<lparr>value' = ''a#b.c[d]:e::f'', elem = True\<rparr>"
    by (simp add: builder_element_def id'_def class'_def attr_def pseudoClass_def
        pseudoElement_def new_CssClass_def)
  from worked_chains [of "builder_element ''div''" "''main''" M_id] h
  have "stringify \<lparr>value' = ''div#main'', elem = True\<rparr>
       = stringify (builder_element ''div'') @ token M_id ''main''"
    by blast
  with h all show ?thesis by simp
qed

text \<open>
  C6. For every fragment whose tag flag is set, appending a tag fails with the
  duplicate error. The flag is set exactly in the chains started with the tag
  starter (no other starter sets it and every append copies it), so appending a
  second tag to any fragment built by a chain from builder.element fails with
  DuplicateSegmentError.
\<close>

theorem second_tag_is_duplicate:
  assumes "chain (start M_element t) cs = Inr f"
  shows "elem f \<and> element f val = Inl DuplicateSegmentError
    \<and> (elem (start m v) \<longleftrightarrow> m = M_element)"
proof -
  from built_elem [OF assms] have "elem f" by simp
  then show ?thesis by (simp add: element_def start_elem)
qed

theorem second_tag_is_duplicate_witness:
  "chain (start M_element ''ul'') [(M_id, ''nav''), (M_class, ''wide'')]
      = Inr \<lparr>value' = ''ul#nav.wide'', elem = True\<rparr>
   \<and> element \<lparr>value' = ''ul#nav.wide'', elem = True\<rparr> ''li'' = Inl DuplicateSegmentError"
proof -
  have h: "chain (start M_element ''ul'') [(M_id, ''nav''), (M_class, ''wide'')]
      = Inr \<lparr>value' = ''ul#nav.wide'', elem = True\<rparr>"
    by (simp add: builder_element_def id'_def class'_def new_CssClass_def)
  from second_tag_is_duplicate [OF h, of "''li''"] h show ?thesis by simp
qed




text \<open>
  C8. For every width and height, the object the Rectangle constructor produces has
  the fields width and height equal to the two arguments, and its getArea() returns
  the product height * width.
\<close>

theorem Rectangle_fields_and_area:
  "width (new_Rectangle w h) = w \<and> height (new_Rectangle w h) = h
     \<and> getArea (new_Rectangle w h) = h * w"
  by (simp add: new_Rectangle_def getArea_def)

text \<open>
  C9. combine is total: for every two fragments and every operator string, one of
  the four combinators or not, it returns the fragment with the joined text and
  the tag flag unset, also when an operand has the flag set. Appending a tag to a
  combined fragment therefore fails with the ordering error, never with the
  duplicate error.
\<close>

theorem combine_flag_unset:
  "combine a comb b
      = \<lparr>value' = stringify a @ '' '' @ comb @ '' '' @ stringify b, elem = False\<rparr>
   \<and> elem (combine (builder_element t) comb b) = False
   \<and> element (combine a comb b) val = Inl SegmentOrderError
   \<and> element (combine a comb b) val \<noteq> Inl DuplicateSegmentError"
  by (simp add: combine_def new_CssClass_def element_def err_distinct [symmetric])

text \<open>
  C10. The id method looks for the character '#' in the whole text. The fragment
  builder.element('a#b') and the fragment builder.class('a#b') have no id segment,
  and appending an id to either fails with the duplicate error: it neither
  succeeds nor reports an ordering error.
\<close>

theorem id_duplicate_without_id_segment:
  "chain (start M_element ''a#b'') [] = Inr \<lparr>value' = ''a#b'', elem = True\<rparr>
   \<and> id' \<lparr>value' = ''a#b'', elem = True\<rparr> ''x'' = Inl DuplicateSegmentError
   \<and> chain (start M_class ''a#b'') [] = Inr \<lparr>value' = ''.a#b'', elem = False\<rparr>
   \<and> id' \<lparr>value' = ''.a#b'', elem = False\<rparr> ''x'' = Inl DuplicateSegmentError
   \<and> M_id \<notin> set (map fst [(M_element, ''a#b'')])
   \<and> M_id \<notin> set (map fst [(M_class, ''a#b'')])
   \<and> DuplicateSegmentError \<noteq> SegmentOrderError"
  by (simp add: builder_element_def builder_class_def new_CssClass_def id'_def err_distinct)

end
